theory Spec2Isabelle
  imports Main
begin

section \<open>Py-Style: the classes of \<open>py_style/models.py\<close>\<close>

text \<open>
  The module defines \<open>Theme\<close>, \<open>Console\<close>, \<open>ProgressBar\<close> and \<open>Table\<close>. Objects are
  records, a method is a function from the object (and its arguments) to the object after
  the call, and an exception is a value of \<open>py_error\<close>. A method that returns nothing
  yields \<open>Inr ()\<close> when it returns and \<open>Inl e\<close> when it raises \<open>e\<close>; in both cases the
  object after the call is given beside it, since an exception does not undo the
  assignments made before it.
\<close>

subsection \<open>Exceptions and the imported constants\<close>

datatype py_error = KeyError | IndexError | TypeError | ValueError string

text \<open>
  \<open>from .constants import *\<close> brings the escape codes and the alignment tokens. The
  module \<open>constants\<close> is not part of the sources at hand, so the values the code below
  uses are the fields of a record that every function using one of them takes.
\<close>

record constants =
  DEFAULT :: string
  STOP :: string
  CENTER :: string
  LEFT :: string
  RIGHT :: string

text \<open>
  One valuation of them, for evaluating the definitions on concrete inputs. No theorem
  below depends on these particular values unless it names \<open>sample_constants\<close>.
\<close>

definition sample_constants :: constants where
  "sample_constants =
     \<lparr>DEFAULT = ''D'', STOP = ''S'', CENTER = ''center'', LEFT = ''left'', RIGHT = ''right''\<rparr>"

subsection \<open>Theme\<close>

record theme =
  info :: string
  warning :: string
  error :: string
  success :: string
  styles :: "string \<rightharpoonup> string"

text \<open>\<open>Theme.__construct\<close>: five assignments to \<open>self.__styles\<close>, in the order of the source.\<close>

definition construct :: "constants \<Rightarrow> theme \<Rightarrow> theme" where
  "construct K t =
     t\<lparr>styles := (styles t)(''info'' \<mapsto> info t, ''warning'' \<mapsto> warning t,
          ''success'' \<mapsto> success t, ''error'' \<mapsto> error t, ''default'' \<mapsto> DEFAULT K)\<rparr>"

text \<open>\<open>Theme.__init__(info, warning, error, success, **styles)\<close>.\<close>

definition Theme_init ::
  "constants \<Rightarrow> string \<Rightarrow> string \<Rightarrow> string \<Rightarrow> string \<Rightarrow> (string \<rightharpoonup> string) \<Rightarrow> theme" where
  "Theme_init K i w e su sty =
     construct K \<lparr>info = i, warning = w, error = e, success = su, styles = sty\<rparr>"

text \<open>
  \<open>Theme.get_style\<close>: \<open>return self.__styles[target]\<close>. A missing key raises \<open>KeyError\<close>.
  The second component is the theme after the call.
\<close>

definition get_style :: "theme \<Rightarrow> string \<Rightarrow> (py_error + string) \<times> theme" where
  "get_style t target =
     (case styles t target of None \<Rightarrow> (Inl KeyError, t) | Some code \<Rightarrow> (Inr code, t))"

text \<open>
  The setters of \<open>info\<close>, \<open>warning\<close> and \<open>error\<close> assign the field and call
  \<open>__construct\<close>; the setter of \<open>success\<close> assigns the field only.
\<close>

definition info_setter :: "constants \<Rightarrow> string \<Rightarrow> theme \<Rightarrow> theme" where
  "info_setter K color t = construct K (t\<lparr>info := color\<rparr>)"

definition warning_setter :: "constants \<Rightarrow> string \<Rightarrow> theme \<Rightarrow> theme" where
  "warning_setter K color t = construct K (t\<lparr>warning := color\<rparr>)"

definition error_setter :: "constants \<Rightarrow> string \<Rightarrow> theme \<Rightarrow> theme" where
  "error_setter K color t = construct K (t\<lparr>error := color\<rparr>)"

definition success_setter :: "string \<Rightarrow> theme \<Rightarrow> theme" where
  "success_setter color t = t\<lparr>success := color\<rparr>"

text \<open>
  The bulk mutator is declared \<open>def styles(self, **objects)\<close> under \<open>@styles.setter\<close>.
  Its parameter list takes \<open>self\<close> and keyword arguments only, so a call binds when no
  further positional argument is given and no keyword is named \<open>self\<close>; any other call
  raises \<open>TypeError\<close> before the body runs. \<open>args\<close> are the positional arguments after
  \<open>self\<close>, \<open>objects\<close> the keyword arguments. The body is
  \<open>self.__styles.update(objects)\<close>.
\<close>

definition styles_setter ::
  "theme \<Rightarrow> 'v list \<Rightarrow> (string \<rightharpoonup> string) \<Rightarrow> (py_error + unit) \<times> theme" where
  "styles_setter t args objects =
     (if args \<noteq> [] \<or> objects ''self'' \<noteq> None then (Inl TypeError, t)
      else (Inr (), t\<lparr>styles := styles t ++ objects\<rparr>))"

text \<open>
  The assignment \<open>theme.styles = value\<close> goes through the property: Python calls the
  setter as \<open>fset(theme, value)\<close>, the assigned value being one positional argument.
\<close>

definition styles_assign :: "theme \<Rightarrow> 'v \<Rightarrow> (py_error + unit) \<times> theme" where
  "styles_assign t v = styles_setter t [v] Map.empty"

text \<open>
  Histories of a theme: the constructor, then setter calls. \<open>Set_styles objects\<close> is the
  call of the bulk mutator with the keyword arguments \<open>objects\<close>.
\<close>

datatype theme_op =
    Set_info string
  | Set_warning string
  | Set_error string
  | Set_success string
  | Set_styles "string \<rightharpoonup> string"

fun theme_step :: "constants \<Rightarrow> theme_op \<Rightarrow> theme \<Rightarrow> theme" where
  "theme_step K (Set_info c) t = info_setter K c t"
| "theme_step K (Set_warning c) t = warning_setter K c t"
| "theme_step K (Set_error c) t = error_setter K c t"
| "theme_step K (Set_success c) t = success_setter c t"
| "theme_step K (Set_styles objects) t = snd (styles_setter t ([] :: unit list) objects)"

fun theme_run :: "constants \<Rightarrow> theme_op list \<Rightarrow> theme \<Rightarrow> theme" where
  "theme_run K [] t = t"
| "theme_run K (x # xs) t = theme_run K xs (theme_step K x t)"

subsection \<open>Console: the alignment routine\<close>

text \<open>
  Python's \<open>" " * n\<close> is the empty string for \<open>n \<le> 0\<close>; \<open>rstrip(" ")\<close> and
  \<open>lstrip(" ")\<close> remove the spaces at one end.
\<close>

definition spaces :: "int \<Rightarrow> string" where
  "spaces n = replicate (nat n) (CHR '' '')"

definition lstrip :: "string \<Rightarrow> string" where
  "lstrip s = dropWhile (\<lambda>c. c = CHR '' '') s"

definition rstrip :: "string \<Rightarrow> string" where
  "rstrip s = rev (dropWhile (\<lambda>c. c = CHR '' '') (rev s))"

text \<open>
  \<open>Console.__align_text(text, alignment)\<close>; \<open>width\<close> is what
  \<open>get_terminal_size().columns\<close> returned for this call.
\<close>

definition align_text :: "constants \<Rightarrow> int \<Rightarrow> string \<Rightarrow> string \<Rightarrow> py_error + string" where
  "align_text K width text alignment =
     (if alignment = CENTER K then
        (let padding = (width - int (length text)) div 2
         in Inr (spaces padding @ text @ spaces (width - int (length text) - padding)))
      else if alignment = RIGHT K then
        Inr (rstrip (spaces (width - int (length text)) @ text))
      else if alignment = LEFT K then
        Inr (lstrip (text @ spaces (width - int (length text))))
      else
        Inl (ValueError
          (''Invalid argument for function 'Console.__align_text': '' @ alignment)))"

subsection \<open>ProgressBar\<close>

record 'd ProgressBar =
  "values" :: int
  bar_theme :: theme
  symbol :: string
  delay :: 'd

text \<open>
  What \<open>run\<close> does to the outside: \<open>print(x, end=STOP, flush=True)\<close> writes \<open>x\<close> and
  then \<open>STOP\<close>; \<open>sleep(d)\<close> blocks for \<open>d\<close> seconds.
\<close>

datatype 'd event = Print string | Sleep 'd

text \<open>
  The body of the \<open>for\<close> loop of \<open>ProgressBar.run\<close>, \<open>n\<close> iterations left. The lookup
  \<open>self.__theme.get_style(style)\<close> is inside the loop body.
\<close>

fun run_loop ::
  "constants \<Rightarrow> nat \<Rightarrow> string \<Rightarrow> 'd ProgressBar \<Rightarrow> 'd event list
     \<Rightarrow> (py_error + unit) \<times> 'd ProgressBar \<times> 'd event list" where
  "run_loop K 0 style bar out = (Inr (), bar, out)"
| "run_loop K (Suc n) style bar out =
     (case get_style (bar_theme bar) style of
        (Inl e, th) \<Rightarrow> (Inl e, bar\<lparr>bar_theme := th\<rparr>, out)
      | (Inr code, th) \<Rightarrow>
          run_loop K n style (bar\<lparr>bar_theme := th\<rparr>)
            (out @ [Print (code @ symbol bar @ STOP K), Sleep (delay bar)]))"

text \<open>
  \<open>ProgressBar.run(style, del_self)\<close>: \<open>range(self.__values)\<close> is empty for a count
  below one. \<open>del self\<close> unbinds the local name and nothing else.
\<close>

definition run ::
  "constants \<Rightarrow> 'd ProgressBar \<Rightarrow> string \<Rightarrow> bool \<Rightarrow> (py_error + unit) \<times> 'd ProgressBar \<times> 'd event list" where
  "run K bar style del_self = run_loop K (nat (values bar)) style bar []"

subsection \<open>Table\<close>

text \<open>A cell holds a value or \<open>None\<close>, the empty marker.\<close>

record 'a Table =
  columns :: int
  rows :: int
  table :: "'a option list list"

definition Table_init :: "int \<Rightarrow> 'a Table" where
  "Table_init c = \<lparr>columns = c, rows = 0, table = []\<rparr>"

text \<open>
  Python's list indexing: an index \<open>i\<close> of a list of length \<open>n\<close> is valid for
  \<open>-n \<le> i < n\<close>, a negative one counting from the end.
\<close>

definition py_index :: "nat \<Rightarrow> int \<Rightarrow> nat option" where
  "py_index n i =
     (if 0 \<le> i \<and> i < int n then Some (nat i)
      else if - int n \<le> i \<and> i < 0 then Some (nat (int n + i))
      else None)"

text \<open>\<open>del xs[k]\<close> at a valid position.\<close>

definition del_at :: "nat \<Rightarrow> 'b list \<Rightarrow> 'b list" where
  "del_at k xs = take k xs @ drop (Suc k) xs"

text \<open>The two \<open>while\<close> loops of \<open>add_row\<close>; \<open>pop()\<close> on an empty list raises.\<close>

function pad_loop :: "'a option list \<Rightarrow> int \<Rightarrow> 'a option list" where
  "pad_loop objects c =
     (if int (length objects) < c then pad_loop (objects @ [None]) c else objects)"
  by pat_completeness auto
termination
  by (relation "measure (\<lambda>(objects, c). nat (c - int (length objects)))") auto

function pop_loop :: "'a option list \<Rightarrow> int \<Rightarrow> py_error + 'a option list" where
  "pop_loop objects c =
     (if int (length objects) > c then
        (if objects = [] then Inl IndexError else pop_loop (butlast objects) c)
      else Inr objects)"
  by pat_completeness auto
termination
  by (relation "measure (\<lambda>(objects, c). length objects)") auto

definition add_row :: "'a option list \<Rightarrow> 'a Table \<Rightarrow> (py_error + unit) \<times> 'a Table" where
  "add_row objects t =
     (case pop_loop (pad_loop objects (columns t)) (columns t) of
        Inl e \<Rightarrow> (Inl e, t)
      | Inr row \<Rightarrow> (Inr (), t\<lparr>table := table t @ [row], rows := rows t + 1\<rparr>))"

definition del_row :: "int \<Rightarrow> 'a Table \<Rightarrow> (py_error + unit) \<times> 'a Table" where
  "del_row index t =
     (case py_index (length (table t)) index of
        None \<Rightarrow> (Inl IndexError, t)
      | Some k \<Rightarrow> (Inr (), t\<lparr>table := del_at k (table t), rows := rows t - 1\<rparr>))"

text \<open>
  \<open>for row in self.__table: del row[index]\<close>: the rows before the one that raises have
  lost their cell already.
\<close>

fun del_column_loop ::
  "int \<Rightarrow> 'a option list list \<Rightarrow> (py_error + unit) \<times> 'a option list list" where
  "del_column_loop index [] = (Inr (), [])"
| "del_column_loop index (row # rest) =
     (case py_index (length row) index of
        None \<Rightarrow> (Inl IndexError, row # rest)
      | Some k \<Rightarrow>
          (case del_column_loop index rest of
             (r, rest') \<Rightarrow> (r, del_at k row # rest')))"

definition del_column :: "int \<Rightarrow> 'a Table \<Rightarrow> (py_error + unit) \<times> 'a Table" where
  "del_column index t =
     (case del_column_loop index (table t) of
        (Inl e, tb) \<Rightarrow> (Inl e, t\<lparr>table := tb\<rparr>)
      | (Inr u, tb) \<Rightarrow> (Inr (), t\<lparr>table := tb, columns := columns t - 1\<rparr>))"

fun add_column_loop :: "'a option \<Rightarrow> 'a option list list \<Rightarrow> 'a option list list" where
  "add_column_loop placeholder [] = []"
| "add_column_loop placeholder (row # rest) =
     (row @ [placeholder]) # add_column_loop placeholder rest"

definition add_column :: "'a option \<Rightarrow> 'a Table \<Rightarrow> (py_error + unit) \<times> 'a Table" where
  "add_column placeholder t =
     (Inr (), t\<lparr>table := add_column_loop placeholder (table t), columns := columns t + 1\<rparr>)"

definition get_column :: "'a Table \<Rightarrow> int \<Rightarrow> int \<Rightarrow> py_error + 'a option" where
  "get_column t row_index column_index =
     (case py_index (length (table t)) row_index of
        None \<Rightarrow> Inl IndexError
      | Some i \<Rightarrow>
          (case py_index (length (table t ! i)) column_index of
             None \<Rightarrow> Inl IndexError
           | Some j \<Rightarrow> Inr (table t ! i ! j)))"

definition set_column ::
  "'a option \<Rightarrow> int \<Rightarrow> int \<Rightarrow> 'a Table \<Rightarrow> (py_error + unit) \<times> 'a Table" where
  "set_column info' row_index column_index t =
     (case py_index (length (table t)) row_index of
        None \<Rightarrow> (Inl IndexError, t)
      | Some i \<Rightarrow>
          (case py_index (length (table t ! i)) column_index of
             None \<Rightarrow> (Inl IndexError, t)
           | Some j \<Rightarrow> (Inr (), t\<lparr>table := (table t)[i := (table t ! i)[j := info']]\<rparr>)))"

definition get_row :: "'a Table \<Rightarrow> int \<Rightarrow> py_error + 'a option list" where
  "get_row t index =
     (case py_index (length (table t)) index of
        None \<Rightarrow> Inl IndexError
      | Some i \<Rightarrow> Inr (table t ! i))"

text \<open>
  \<open>get_table\<close>: \<open>sep.join(...)\<close> of the cells, \<open>str(cell)\<close> for a value and the empty
  string for \<open>None\<close>. \<open>str\<close> is the conversion of the cells' values to text.
\<close>

fun join :: "string \<Rightarrow> string list \<Rightarrow> string" where
  "join sep [] = []"
| "join sep [x] = x"
| "join sep (x # y # ys) = x @ sep @ join sep (y # ys)"

definition cell_text :: "('a \<Rightarrow> string) \<Rightarrow> 'a option \<Rightarrow> string" where
  "cell_text str cell = (case cell of None \<Rightarrow> [] | Some v \<Rightarrow> str v)"

definition row_line :: "('a \<Rightarrow> string) \<Rightarrow> 'a option list \<Rightarrow> string" where
  "row_line str row = ''| '' @ join '' | '' (map (cell_text str) row) @ '' |'' @ [CHR 0x0A]"

fun get_table_loop :: "('a \<Rightarrow> string) \<Rightarrow> 'a option list list \<Rightarrow> string \<Rightarrow> string" where
  "get_table_loop str [] return_str = return_str"
| "get_table_loop str (row # rest) return_str =
     get_table_loop str rest (return_str @ row_line str row)"

definition get_table :: "('a \<Rightarrow> string) \<Rightarrow> 'a Table \<Rightarrow> string" where
  "get_table str t = get_table_loop str (table t) []"

text \<open>Histories of a table: the constructor, then calls that return or raise.\<close>

datatype 'a table_op =
    Add_row "'a option list"
  | Del_row int
  | Add_column "'a option"
  | Del_column int
  | Set_column "'a option" int int

fun table_step :: "'a table_op \<Rightarrow> 'a Table \<Rightarrow> 'a Table" where
  "table_step (Add_row objects) t = snd (add_row objects t)"
| "table_step (Del_row index) t = snd (del_row index t)"
| "table_step (Add_column placeholder) t = snd (add_column placeholder t)"
| "table_step (Del_column index) t = snd (del_column index t)"
| "table_step (Set_column v r c) t = snd (set_column v r c t)"

fun table_run :: "'a table_op list \<Rightarrow> 'a Table \<Rightarrow> 'a Table" where
  "table_run [] t = t"
| "table_run (x # xs) t = table_run xs (table_step x t)"

subsection \<open>Notions of the specification\<close>

text \<open>
  The invariant of the specification's data model: every row is as long as \<open>columns\<close>
  says, and \<open>rows\<close> counts the row entries.
\<close>

definition table_inv :: "'a Table \<Rightarrow> bool" where
  "table_inv t \<longleftrightarrow>
     (\<forall>row \<in> set (table t). int (length row) = columns t) \<and> rows t = int (length (table t))"

text \<open>The five keys that \<open>__construct\<close> assigns.\<close>

definition reserved :: "string set" where
  "reserved = {''info'', ''warning'', ''success'', ''error'', ''default''}"

text \<open>
  ``The value most recently set for \<open>s\<close>'', in the specification's words: \<open>info\<close>,
  \<open>warning\<close> and \<open>error\<close> are set by their setters, a name is set by a call of the bulk
  mutator that carries it (a call that raises sets nothing), and the setter of \<open>success\<close>
  is not counted. \<open>last_set s ops cur\<close> follows a history from the value \<open>cur\<close>.
\<close>

fun set_by :: "string \<Rightarrow> theme_op \<Rightarrow> string option" where
  "set_by s (Set_info c) = (if s = ''info'' then Some c else None)"
| "set_by s (Set_warning c) = (if s = ''warning'' then Some c else None)"
| "set_by s (Set_error c) = (if s = ''error'' then Some c else None)"
| "set_by s (Set_success c) = None"
| "set_by s (Set_styles objects) = (if objects ''self'' = None then objects s else None)"

fun last_set :: "string \<Rightarrow> theme_op list \<Rightarrow> string option \<Rightarrow> string option" where
  "last_set s [] cur = cur"
| "last_set s (x # xs) cur =
     last_set s xs (case set_by s x of None \<Rightarrow> cur | Some v \<Rightarrow> Some v)"

text \<open>
  ``The value from the last \<open>__construct\<close> resynchronization'': the setter of \<open>success\<close>
  changes the field, the setters of \<open>info\<close>, \<open>warning\<close> and \<open>error\<close> copy the field
  into the entry.
\<close>

fun last_synced_success :: "theme_op list \<Rightarrow> string \<Rightarrow> string \<Rightarrow> string" where
  "last_synced_success [] field entry = entry"
| "last_synced_success (Set_success c # xs) field entry = last_synced_success xs c entry"
| "last_synced_success (Set_styles objects # xs) field entry =
     last_synced_success xs field entry"
| "last_synced_success (x # xs) field entry = last_synced_success xs field field"

text \<open>No call of the bulk mutator in the history carries the name \<open>s\<close>.\<close>

fun no_bulk :: "string \<Rightarrow> theme_op list \<Rightarrow> bool" where
  "no_bulk s [] = True"
| "no_bulk s (Set_styles objects # xs) = (objects s = None \<and> no_bulk s xs)"
| "no_bulk s (x # xs) = no_bulk s xs"

section \<open>Theme\<close>

subsection \<open>Lookups\<close>

lemma get_style_fst:
  "fst (get_style t s) = (case styles t s of None \<Rightarrow> Inl KeyError | Some v \<Rightarrow> Inr v)"
  by (simp add: get_style_def split: option.splits)

lemma init_styles:
  "styles (Theme_init K i w e su sty) =
     sty(''info'' \<mapsto> i, ''warning'' \<mapsto> w, ''success'' \<mapsto> su, ''error'' \<mapsto> e,
         ''default'' \<mapsto> DEFAULT K)"
  by (simp add: Theme_init_def construct_def)

lemma init_fields:
  "info (Theme_init K i w e su sty) = i" "warning (Theme_init K i w e su sty) = w"
  "error (Theme_init K i w e su sty) = e" "success (Theme_init K i w e su sty) = su"
  by (simp_all add: Theme_init_def construct_def)

text \<open>
  C8. For a name \<open>s\<close> with no entry in the theme's mapping, \<open>get_style\<close> raises the
  lookup error \<open>KeyError\<close>, and the theme after the call is the theme before it.
\<close>

theorem get_style_unregistered:
  "styles t s = None \<Longrightarrow> get_style t s = (Inl KeyError, t)"
  by (simp add: get_style_def)

theorem get_style_unregistered_witness:
  "styles (Theme_init sample_constants ''c'' ''y'' ''r'' ''g'' Map.empty) ''bold'' = None
   \<and> get_style (Theme_init sample_constants ''c'' ''y'' ''r'' ''g'' Map.empty) ''bold''
       = (Inl KeyError, Theme_init sample_constants ''c'' ''y'' ''r'' ''g'' Map.empty)"
proof -
  have h: "styles (Theme_init sample_constants ''c'' ''y'' ''r'' ''g'' Map.empty) ''bold'' = None"
    by (simp add: init_styles)
  show ?thesis using h get_style_unregistered [OF h] by simp
qed

subsection \<open>Histories of setter calls\<close>

text \<open>A name outside the five keys of \<open>__construct\<close> is written by the bulk mutator only.\<close>

lemma step_other:
  "s \<notin> reserved \<Longrightarrow>
   styles (theme_step K x t) s = (case set_by s x of None \<Rightarrow> styles t s | Some v \<Rightarrow> Some v)"
  by (cases x)
     (auto simp: reserved_def info_setter_def warning_setter_def error_setter_def
        success_setter_def styles_setter_def construct_def map_add_def split: option.splits)

lemma run_other:
  "s \<notin> reserved \<Longrightarrow> styles (theme_run K ops t) s = last_set s ops (styles t s)"
  by (induction ops arbitrary: t) (simp_all add: step_other)

lemma no_bulk_tail: "no_bulk s (x # xs) \<Longrightarrow> no_bulk s xs"
  by (cases x) simp_all

text \<open>
  The entries \<open>info\<close>, \<open>warning\<close> and \<open>error\<close> equal their fields as long as the bulk
  mutator does not write them; the entry \<open>default\<close> stays \<open>DEFAULT\<close>.
\<close>

lemma step_info:
  assumes "styles t ''info'' = Some (info t)" "no_bulk ''info'' (x # xs)"
  shows "styles (theme_step K x t) ''info'' = Some (info (theme_step K x t))
       \<and> (case set_by ''info'' x of None \<Rightarrow> Some (info t) | Some v \<Rightarrow> Some v)
           = Some (info (theme_step K x t))"
  using assms
  by (cases x)
     (auto simp: info_setter_def warning_setter_def error_setter_def
        success_setter_def styles_setter_def construct_def map_add_def split: option.splits)

lemma run_info:
  "styles t ''info'' = Some (info t) \<Longrightarrow> no_bulk ''info'' ops \<Longrightarrow>
   styles (theme_run K ops t) ''info'' = last_set ''info'' ops (Some (info t))"
proof (induction ops arbitrary: t)
  case Nil
  then show ?case by simp
next
  case (Cons x xs)
  from step_info[OF Cons.prems(1) Cons.prems(2), of K]
  have a: "styles (theme_step K x t) ''info'' = Some (info (theme_step K x t))"
   and b: "(case set_by ''info'' x of None \<Rightarrow> Some (info t) | Some v \<Rightarrow> Some v)
           = Some (info (theme_step K x t))" by simp_all
  from Cons.IH[OF a no_bulk_tail[OF Cons.prems(2)]] b show ?case by simp
qed

lemma step_warning:
  assumes "styles t ''warning'' = Some (warning t)" "no_bulk ''warning'' (x # xs)"
  shows "styles (theme_step K x t) ''warning'' = Some (warning (theme_step K x t))
       \<and> (case set_by ''warning'' x of None \<Rightarrow> Some (warning t) | Some v \<Rightarrow> Some v)
           = Some (warning (theme_step K x t))"
  using assms
  by (cases x)
     (auto simp: info_setter_def warning_setter_def error_setter_def
        success_setter_def styles_setter_def construct_def map_add_def split: option.splits)

lemma run_warning:
  "styles t ''warning'' = Some (warning t) \<Longrightarrow> no_bulk ''warning'' ops \<Longrightarrow>
   styles (theme_run K ops t) ''warning'' = last_set ''warning'' ops (Some (warning t))"
proof (induction ops arbitrary: t)
  case Nil
  then show ?case by simp
next
  case (Cons x xs)
  from step_warning[OF Cons.prems(1) Cons.prems(2), of K]
  have a: "styles (theme_step K x t) ''warning'' = Some (warning (theme_step K x t))"
   and b: "(case set_by ''warning'' x of None \<Rightarrow> Some (warning t) | Some v \<Rightarrow> Some v)
           = Some (warning (theme_step K x t))" by simp_all
  from Cons.IH[OF a no_bulk_tail[OF Cons.prems(2)]] b show ?case by simp
qed

lemma step_error:
  assumes "styles t ''error'' = Some (error t)" "no_bulk ''error'' (x # xs)"
  shows "styles (theme_step K x t) ''error'' = Some (error (theme_step K x t))
       \<and> (case set_by ''error'' x of None \<Rightarrow> Some (error t) | Some v \<Rightarrow> Some v)
           = Some (error (theme_step K x t))"
  using assms
  by (cases x)
     (auto simp: info_setter_def warning_setter_def error_setter_def
        success_setter_def styles_setter_def construct_def map_add_def split: option.splits)

lemma run_error:
  "styles t ''error'' = Some (error t) \<Longrightarrow> no_bulk ''error'' ops \<Longrightarrow>
   styles (theme_run K ops t) ''error'' = last_set ''error'' ops (Some (error t))"
proof (induction ops arbitrary: t)
  case Nil
  then show ?case by simp
next
  case (Cons x xs)
  from step_error[OF Cons.prems(1) Cons.prems(2), of K]
  have a: "styles (theme_step K x t) ''error'' = Some (error (theme_step K x t))"
   and b: "(case set_by ''error'' x of None \<Rightarrow> Some (error t) | Some v \<Rightarrow> Some v)
           = Some (error (theme_step K x t))" by simp_all
  from Cons.IH[OF a no_bulk_tail[OF Cons.prems(2)]] b show ?case by simp
qed

lemma step_default:
  assumes "styles t ''default'' = Some (DEFAULT K)" "no_bulk ''default'' (x # xs)"
  shows "styles (theme_step K x t) ''default'' = Some (DEFAULT K)
       \<and> set_by ''default'' x = None"
  using assms
  by (cases x)
     (auto simp: info_setter_def warning_setter_def error_setter_def
        success_setter_def styles_setter_def construct_def map_add_def split: option.splits)

lemma run_default:
  "styles t ''default'' = Some (DEFAULT K) \<Longrightarrow> no_bulk ''default'' ops \<Longrightarrow>
   styles (theme_run K ops t) ''default'' = last_set ''default'' ops (Some (DEFAULT K))"
proof (induction ops arbitrary: t)
  case Nil
  then show ?case by simp
next
  case (Cons x xs)
  from step_default[OF Cons.prems(1) Cons.prems(2)]
  have a: "styles (theme_step K x t) ''default'' = Some (DEFAULT K)"
   and b: "set_by ''default'' x = None" by simp_all
  from Cons.IH[OF a no_bulk_tail[OF Cons.prems(2)]] b show ?case by simp
qed

text \<open>The entry \<open>success\<close> is the field as the last run of \<open>__construct\<close> found it.\<close>

lemma run_success:
  "styles t ''success'' = Some entry \<Longrightarrow> no_bulk ''success'' ops \<Longrightarrow>
   styles (theme_run K ops t) ''success'' = Some (last_synced_success ops (success t) entry)"
proof (induction ops arbitrary: t entry)
  case Nil
  then show ?case by simp
next
  case (Cons x xs)
  note nb = no_bulk_tail[OF Cons.prems(2)]
  show ?case
  proof (cases x)
    case (Set_info c)
    have "styles (theme_step K x t) ''success'' = Some (success t)"
         "success (theme_step K x t) = success t"
      by (simp_all add: Set_info info_setter_def construct_def)
    from Cons.IH[OF this(1) nb] this(2) show ?thesis by (simp add: Set_info)
  next
    case (Set_warning c)
    have "styles (theme_step K x t) ''success'' = Some (success t)"
         "success (theme_step K x t) = success t"
      by (simp_all add: Set_warning warning_setter_def construct_def)
    from Cons.IH[OF this(1) nb] this(2) show ?thesis by (simp add: Set_warning)
  next
    case (Set_error c)
    have "styles (theme_step K x t) ''success'' = Some (success t)"
         "success (theme_step K x t) = success t"
      by (simp_all add: Set_error error_setter_def construct_def)
    from Cons.IH[OF this(1) nb] this(2) show ?thesis by (simp add: Set_error)
  next
    case (Set_success c)
    have "styles (theme_step K x t) ''success'' = Some entry"
         "success (theme_step K x t) = c"
      using Cons.prems(1) by (simp_all add: Set_success success_setter_def)
    from Cons.IH[OF this(1) nb] this(2) show ?thesis by (simp add: Set_success)
  next
    case (Set_styles objects)
    have "styles (theme_step K x t) ''success'' = Some entry"
         "success (theme_step K x t) = success t"
      using Cons.prems
      by (auto simp: Set_styles styles_setter_def map_add_def split: option.splits)
    from Cons.IH[OF this(1) nb] this(2) show ?thesis by (simp add: Set_styles)
  qed
qed

text \<open>
  C1, as amended. Take a theme built by the constructor and changed by any history of
  calls of the four setters and of the bulk mutator (with keyword arguments), and a
  name \<open>s\<close> that no call of the bulk mutator carried if \<open>s\<close> is one of the five keys
  \<open>info\<close>, \<open>warning\<close>, \<open>success\<close>, \<open>error\<close>, \<open>default\<close>. Then
  \<^item> for \<open>s\<close> other than \<open>success\<close>, \<open>get_style s\<close> returns the value most recently set
    for \<open>s\<close> (by the dedicated setter for \<open>info\<close>, \<open>warning\<close>, \<open>error\<close>; by the bulk
    mutator for another name), the constructor's value when there was none, and raises
    the lookup error when \<open>s\<close> was never registered;
  \<^item> \<open>get_style ''success''\<close> returns the field \<open>success\<close> as the last run of
    \<open>__construct\<close> found it;
  \<^item> the setter of \<open>success\<close> changes the field and leaves \<open>get_style ''success''\<close> as
    it was.
\<close>

theorem get_style_latest:
  assumes t0: "t0 = Theme_init K i w e su sty"
      and t: "t = theme_run K ops t0"
      and nb: "s \<in> reserved \<longrightarrow> no_bulk s ops"
  shows "(s \<noteq> ''success'' \<longrightarrow>
            fst (get_style t s) =
              (case last_set s ops (styles t0 s) of None \<Rightarrow> Inl KeyError | Some v \<Rightarrow> Inr v))
       \<and> (s = ''success'' \<longrightarrow> fst (get_style t s) = Inr (last_synced_success ops su su))
       \<and> fst (get_style (success_setter c t) ''success'') = fst (get_style t ''success'')
       \<and> success (success_setter c t) = c"
proof -
  have 1: "styles t s = last_set s ops (styles t0 s)" if "s \<noteq> ''success''"
  proof (cases "s \<in> reserved")
    case False
    then show ?thesis unfolding t by (rule run_other)
  next
    case True
    with that have "s = ''info'' \<or> s = ''warning'' \<or> s = ''error'' \<or> s = ''default''"
      by (auto simp: reserved_def)
    then show ?thesis
    proof (elim disjE)
      assume s: "s = ''info''"
      have "styles t0 ''info'' = Some (info t0)" by (simp add: t0 init_styles init_fields)
      with run_info[OF this, of ops K] nb True show ?thesis by (simp add: s t)
    next
      assume s: "s = ''warning''"
      have "styles t0 ''warning'' = Some (warning t0)"
        by (simp add: t0 init_styles init_fields)
      with run_warning[OF this, of ops K] nb True show ?thesis by (simp add: s t)
    next
      assume s: "s = ''error''"
      have "styles t0 ''error'' = Some (error t0)" by (simp add: t0 init_styles init_fields)
      with run_error[OF this, of ops K] nb True show ?thesis by (simp add: s t)
    next
      assume s: "s = ''default''"
      have "styles t0 ''default'' = Some (DEFAULT K)" by (simp add: t0 init_styles)
      with run_default[OF this, of ops] nb True show ?thesis by (simp add: s t)
    qed
  qed
  have 2: "styles t ''success'' = Some (last_synced_success ops su su)" if "s = ''success''"
  proof -
    have a: "styles t0 ''success'' = Some su" by (simp add: t0 init_styles)
    have b: "no_bulk ''success'' ops" using nb that by (simp add: reserved_def)
    from run_success[OF a b, of K] show ?thesis by (simp add: t t0 init_fields)
  qed
  have 3: "fst (get_style (success_setter c t) ''success'') = fst (get_style t ''success'')"
    by (simp add: get_style_fst success_setter_def)
  have 4: "success (success_setter c t) = c" by (simp add: success_setter_def)
  from 1 2 3 4 show ?thesis by (simp add: get_style_fst)
qed

theorem get_style_latest_witness:
  "no_bulk ''info'' [Set_info ''B'', Set_success ''N'', Set_styles [''bold'' \<mapsto> ''X'']]
   \<and> ''bold'' \<notin> reserved
   \<and> no_bulk ''success'' [Set_info ''B'', Set_success ''N'', Set_styles [''bold'' \<mapsto> ''X'']]
   \<and> fst (get_style (theme_run sample_constants
             [Set_info ''B'', Set_success ''N'', Set_styles [''bold'' \<mapsto> ''X'']]
             (Theme_init sample_constants ''C'' ''Y'' ''R'' ''G'' Map.empty)) ''info'') = Inr ''B''
   \<and> fst (get_style (theme_run sample_constants
             [Set_info ''B'', Set_success ''N'', Set_styles [''bold'' \<mapsto> ''X'']]
             (Theme_init sample_constants ''C'' ''Y'' ''R'' ''G'' Map.empty)) ''bold'') = Inr ''X''
   \<and> fst (get_style (theme_run sample_constants
             [Set_info ''B'', Set_success ''N'', Set_styles [''bold'' \<mapsto> ''X'']]
             (Theme_init sample_constants ''C'' ''Y'' ''R'' ''G'' Map.empty)) ''success'') = Inr ''G''"
proof -
  let ?ops = "[Set_info ''B'', Set_success ''N'', Set_styles [''bold'' \<mapsto> ''X'']]"
  let ?t0 = "Theme_init sample_constants ''C'' ''Y'' ''R'' ''G'' Map.empty"
  let ?t = "theme_run sample_constants ?ops ?t0"
  have a: "no_bulk ''info'' ?ops" by simp
  have b: "''bold'' \<notin> reserved" by (simp add: reserved_def)
  have c: "no_bulk ''success'' ?ops" by simp
  have a': "''info'' \<in> reserved \<longrightarrow> no_bulk ''info'' ?ops" using a by simp
  have b': "''bold'' \<in> reserved \<longrightarrow> no_bulk ''bold'' ?ops" using b by simp
  have c': "''success'' \<in> reserved \<longrightarrow> no_bulk ''success'' ?ops" using c by simp
  have 1: "fst (get_style ?t ''info'') = Inr ''B''"
    using get_style_latest[OF refl refl a'] by (simp add: init_styles)
  have 2: "fst (get_style ?t ''bold'') = Inr ''X''"
    using get_style_latest[OF refl refl b'] by (simp add: init_styles)
  have 3: "fst (get_style ?t ''success'') = Inr ''G''"
    using get_style_latest[OF refl refl c'] by simp
  from a b c 1 2 3 show ?thesis by simp
qed

text \<open>
  The claim as first stated fails in two ways, both through the next run of
  \<open>__construct\<close>. After \<open>success = ''N''\<close> and then \<open>info = ''B''\<close>, \<open>get_style\<close> does
  return the new value \<open>''N''\<close> of \<open>success\<close>, where the claim has it return the value
  from before the setter, \<open>''G''\<close>. After \<open>styles(default = ''X'')\<close> and then
  \<open>info = ''B''\<close>, the value most recently set for \<open>default\<close> is \<open>''X''\<close> and
  \<open>get_style\<close> returns \<open>DEFAULT\<close>.
\<close>

theorem get_style_latest_counterexample:
  "last_set ''success'' [Set_success ''N'', Set_info ''B'']
       (styles (Theme_init sample_constants ''C'' ''Y'' ''R'' ''G'' Map.empty) ''success'')
     = Some ''G''
   \<and> fst (get_style (theme_run sample_constants
             [Set_success ''N'', Set_info ''B'']
             (Theme_init sample_constants ''C'' ''Y'' ''R'' ''G'' Map.empty)) ''success'')
     = Inr ''N''
   \<and> last_set ''default'' [Set_styles [''default'' \<mapsto> ''X''], Set_info ''B'']
       (styles (Theme_init sample_constants ''C'' ''Y'' ''R'' ''G'' Map.empty) ''default'')
     = Some ''X''
   \<and> fst (get_style (theme_run sample_constants
             [Set_styles [''default'' \<mapsto> ''X''], Set_info ''B'']
             (Theme_init sample_constants ''C'' ''Y'' ''R'' ''G'' Map.empty)) ''default'')
     = Inr ''D''"
  by (simp add: get_style_fst init_styles Theme_init_def construct_def info_setter_def
        success_setter_def styles_setter_def sample_constants_def)

subsection \<open>The bulk mutator\<close>

text \<open>Called with keyword arguments, none of them named \<open>self\<close>, the body merges them.\<close>

lemma styles_setter_keywords:
  assumes "objects ''self'' = None"
  shows "styles_setter t [] objects = (Inr (), t\<lparr>styles := styles t ++ objects\<rparr>)"
    and "objects s = Some v \<Longrightarrow> fst (get_style (snd (styles_setter t [] objects)) s) = Inr v"
    and "objects s = None \<Longrightarrow>
           fst (get_style (snd (styles_setter t [] objects)) s) = fst (get_style t s)"
  using assms by (simp_all add: styles_setter_def get_style_fst map_add_def)

text \<open>Reached through the property, it raises before its body runs.\<close>

lemma styles_assign_TypeError: "styles_assign t v = (Inl TypeError, t)"
  by (simp add: styles_assign_def styles_setter_def)

text \<open>
  C3. The claim: the bulk mutator, the setter of the property \<open>styles\<close>, merges the
  pairs it is given into the mapping, so that \<open>get_style\<close> returns the new code of each
  merged name. The code at \<open>theme.styles = {''bold'': ''X''}\<close>: the assignment raises
  \<open>TypeError\<close>, the theme is as before, and \<open>get_style ''bold''\<close> still raises the lookup
  error.
\<close>

theorem styles_assign_raises:
  "styles_assign (Theme_init sample_constants ''C'' ''Y'' ''R'' ''G'' Map.empty)
       [''bold'' \<mapsto> ''X'']
     = (Inl TypeError, Theme_init sample_constants ''C'' ''Y'' ''R'' ''G'' Map.empty)
   \<and> fst (get_style
            (snd (styles_assign (Theme_init sample_constants ''C'' ''Y'' ''R'' ''G'' Map.empty)
                    [''bold'' \<mapsto> ''X'']))
            ''bold'')
     = Inl KeyError"
  by (simp add: styles_assign_TypeError get_style_fst init_styles)

section \<open>Console\<close>

text \<open>
  C7. For a terminal of width \<open>W\<close> and a text of length \<open>L < W\<close>, center alignment
  returns a string of length exactly \<open>W\<close>: \<open>(W - L) div 2\<close> spaces, then the text
  unchanged (so at offset \<open>(W - L) div 2\<close>), then the remaining
  \<open>W - L - (W - L) div 2\<close> spaces.
\<close>

theorem align_text_center:
  assumes "int (length text) < W"
  shows "\<exists>r. align_text K W text (CENTER K) = Inr r
           \<and> int (length r) = W
           \<and> r = replicate (nat ((W - int (length text)) div 2)) (CHR '' '') @ text
                 @ replicate (nat (W - int (length text) - (W - int (length text)) div 2))
                     (CHR '' '')
           \<and> take (length text) (drop (nat ((W - int (length text)) div 2)) r) = text"
proof -
  let ?p = "(W - int (length text)) div 2"
  let ?r = "spaces ?p @ text @ spaces (W - int (length text) - ?p)"
  have 1: "align_text K W text (CENTER K) = Inr ?r" by (simp add: align_text_def Let_def)
  have p: "0 \<le> ?p" "?p \<le> W - int (length text)" using assms by simp_all
  have 2: "int (length ?r) = W" using p by (simp add: spaces_def)
  have 3: "take (length text) (drop (nat ?p) ?r) = text" by (simp add: spaces_def)
  from 1 2 3 show ?thesis by (intro exI[of _ ?r]) (simp add: spaces_def)
qed

theorem align_text_center_witness:
  "int (length ''abc'') < 10
   \<and> align_text sample_constants 10 ''abc'' ''center'' = Inr ''   abc    ''"
proof -
  have h: "int (length ''abc'') < 10" by simp
  have c: "CENTER sample_constants = ''center''" by (simp add: sample_constants_def)
  from align_text_center[OF h, of sample_constants]
  obtain r where "align_text sample_constants 10 ''abc'' (CENTER sample_constants) = Inr r"
    and "r = replicate (nat ((10 - int (length ''abc'')) div 2)) (CHR '' '') @ ''abc''
             @ replicate (nat (10 - int (length ''abc'') - (10 - int (length ''abc'')) div 2))
                 (CHR '' '')"
    by blast
  then have "align_text sample_constants 10 ''abc'' ''center'' = Inr ''   abc    ''"
    by (simp add: c eval_nat_numeral)
  with h show ?thesis by simp
qed

section \<open>ProgressBar\<close>

lemma run_loop_registered:
  "styles (bar_theme bar) style = Some code \<Longrightarrow>
   run_loop K n style bar out =
     (Inr (), bar,
      out @ concat (replicate n [Print (code @ symbol bar @ STOP K), Sleep (delay bar)]))"
proof (induction n arbitrary: out)
  case 0
  then show ?case by simp
next
  case (Suc n)
  then show ?case by (simp add: get_style_def)
qed

text \<open>
  C2, as amended. \<open>run\<close> looks the style up at each step, not before the loop. With a
  count of one or more and a style that is not registered it raises the lookup error
  before anything is emitted; with a count of zero or less it returns without an error
  and emits nothing, whether the style is registered or not; with a registered style it
  emits, at each of the \<open>values\<close> steps, the style's code, the symbol and \<open>STOP\<close>, and
  then sleeps for \<open>delay\<close>.
\<close>

theorem run_lookup:
  "(values bar \<le> 0 \<longrightarrow> run K bar style del_self = (Inr (), bar, []))
   \<and> (0 < values bar \<and> styles (bar_theme bar) style = None \<longrightarrow>
        run K bar style del_self = (Inl KeyError, bar, []))
   \<and> (styles (bar_theme bar) style = Some code \<longrightarrow>
        run K bar style del_self =
          (Inr (), bar,
           concat (replicate (nat (values bar))
             [Print (code @ symbol bar @ STOP K), Sleep (delay bar)])))"
proof -
  have 1: "values bar \<le> 0 \<longrightarrow> run K bar style del_self = (Inr (), bar, [])"
    by (simp add: run_def)
  have 2: "0 < values bar \<and> styles (bar_theme bar) style = None \<longrightarrow>
        run K bar style del_self = (Inl KeyError, bar, [])"
  proof
    assume h: "0 < values bar \<and> styles (bar_theme bar) style = None"
    then obtain n where n: "nat (values bar) = Suc n" by (cases "nat (values bar)") auto
    with h show "run K bar style del_self = (Inl KeyError, bar, [])"
      by (simp add: run_def get_style_def)
  qed
  have 3: "styles (bar_theme bar) style = Some code \<longrightarrow>
        run K bar style del_self =
          (Inr (), bar,
           concat (replicate (nat (values bar))
             [Print (code @ symbol bar @ STOP K), Sleep (delay bar)]))"
    by (simp add: run_def run_loop_registered)
  from 1 2 3 show ?thesis by blast
qed

theorem run_lookup_witness:
  "run sample_constants
       \<lparr>values = 2, bar_theme = Theme_init sample_constants ''C'' ''Y'' ''R'' ''G'' Map.empty,
        symbol = ''-'', delay = (1::nat)\<rparr> ''info'' False
     = (Inr (),
        \<lparr>values = 2, bar_theme = Theme_init sample_constants ''C'' ''Y'' ''R'' ''G'' Map.empty,
         symbol = ''-'', delay = 1\<rparr>,
        [Print ''C-S'', Sleep 1, Print ''C-S'', Sleep 1])
   \<and> run sample_constants
       \<lparr>values = 2, bar_theme = Theme_init sample_constants ''C'' ''Y'' ''R'' ''G'' Map.empty,
        symbol = ''-'', delay = (1::nat)\<rparr> ''bold'' False
     = (Inl KeyError,
        \<lparr>values = 2, bar_theme = Theme_init sample_constants ''C'' ''Y'' ''R'' ''G'' Map.empty,
         symbol = ''-'', delay = 1\<rparr>,
        [])
   \<and> run sample_constants
       \<lparr>values = - 1, bar_theme = Theme_init sample_constants ''C'' ''Y'' ''R'' ''G'' Map.empty,
        symbol = ''-'', delay = (1::nat)\<rparr> ''info'' False
     = (Inr (),
        \<lparr>values = - 1, bar_theme = Theme_init sample_constants ''C'' ''Y'' ''R'' ''G'' Map.empty,
         symbol = ''-'', delay = 1\<rparr>,
        [])"
proof -
  let ?th = "Theme_init sample_constants ''C'' ''Y'' ''R'' ''G'' Map.empty"
  let ?bar = "\<lparr>values = 2, bar_theme = ?th, symbol = ''-'', delay = (1::nat)\<rparr>"
  let ?neg = "\<lparr>values = - 1, bar_theme = ?th, symbol = ''-'', delay = (1::nat)\<rparr>"
  have i: "styles (bar_theme ?bar) ''info'' = Some ''C''" by (simp add: init_styles)
  have b: "0 < values ?bar \<and> styles (bar_theme ?bar) ''bold'' = None"
    by (simp add: init_styles)
  have n: "values ?neg \<le> 0" by simp
  have 1: "run sample_constants ?bar ''info'' False
             = (Inr (), ?bar, [Print ''C-S'', Sleep 1, Print ''C-S'', Sleep 1])"
    using run_lookup[of ?bar sample_constants "''info''" False "''C''"] i
    by (simp add: sample_constants_def eval_nat_numeral)
  have 2: "run sample_constants ?bar ''bold'' False = (Inl KeyError, ?bar, [])"
    using run_lookup[of ?bar sample_constants "''bold''" False] b by blast
  have 3: "run sample_constants ?neg ''info'' False = (Inr (), ?neg, [])"
    using run_lookup[of ?neg sample_constants "''info''" False] n by blast
  from 1 2 3 show ?thesis by simp
qed

text \<open>
  The claim as first stated fails at a count of zero: the style \<open>bold\<close> is not
  registered, and \<open>run\<close> returns without the lookup error.
\<close>

theorem run_lookup_counterexample:
  "styles (Theme_init sample_constants ''C'' ''Y'' ''R'' ''G'' Map.empty) ''bold'' = None
   \<and> fst (run sample_constants
            \<lparr>values = 0, bar_theme = Theme_init sample_constants ''C'' ''Y'' ''R'' ''G'' Map.empty,
             symbol = ''-'', delay = (1::nat)\<rparr> ''bold'' False)
       = Inr ()
   \<and> fst (run sample_constants
            \<lparr>values = 0, bar_theme = Theme_init sample_constants ''C'' ''Y'' ''R'' ''G'' Map.empty,
             symbol = ''-'', delay = (1::nat)\<rparr> ''bold'' False)
       \<noteq> Inl KeyError"
  by (simp add: run_def init_styles)

section \<open>Table\<close>

subsection \<open>Indices and the loops of \<open>add_row\<close>\<close>

lemma py_index_bound: "py_index n i = Some k \<Longrightarrow> k < n"
  by (auto simp: py_index_def split: if_splits)

lemma py_index_last: "py_index (Suc n) (- 1) = Some n"
  by (simp add: py_index_def)

lemma py_index_nat: "k < n \<Longrightarrow> py_index n (int k) = Some k"
  by (simp add: py_index_def)

lemma set_del_at: "set (del_at k xs) \<subseteq> set xs"
  by (auto simp: del_at_def dest: in_set_takeD in_set_dropD)

lemma length_del_at: "k < length xs \<Longrightarrow> length (del_at k xs) = length xs - 1"
  by (auto simp: del_at_def)

lemma pad_loop_eq:
  "pad_loop objects c = objects @ replicate (nat (c - int (length objects))) None"
proof (induction objects c rule: pad_loop.induct)
  case (1 objects c)
  show ?case
  proof (cases "int (length objects) < c")
    case True
    then have "nat (c - int (length objects)) = Suc (nat (c - int (length objects) - 1))"
      by simp
    with True 1 show ?thesis
      by (simp add: replicate_append_same del: pad_loop.simps) (subst pad_loop.simps, simp)
  next
    case False
    then show ?thesis by simp
  qed
qed

lemma pop_loop_eq: "0 \<le> c \<Longrightarrow> pop_loop objects c = Inr (take (nat c) objects)"
proof (induction objects c rule: pop_loop.induct)
  case (1 objects c)
  show ?case
  proof (cases "int (length objects) > c")
    case True
    with 1 have ne: "objects \<noteq> []" by auto
    with True 1 have "pop_loop (butlast objects) c = Inr (take (nat c) (butlast objects))"
      by simp
    moreover have "take (nat c) (butlast objects) = take (nat c) objects"
      using True 1(2) by (simp add: take_butlast)
    ultimately show ?thesis using True ne by (subst pop_loop.simps) simp
  next
    case False
    then show ?thesis by (subst pop_loop.simps) simp
  qed
qed

text \<open>With a negative column count the second loop empties the list and pops once more.\<close>

lemma pop_loop_neg: "c < 0 \<Longrightarrow> pop_loop objects c = Inl IndexError"
proof (induction objects c rule: pop_loop.induct)
  case (1 objects c)
  show ?case
  proof (cases "objects = []")
    case True
    with 1(2) show ?thesis by (subst pop_loop.simps) simp
  next
    case False
    with 1 have "pop_loop (butlast objects) c = Inl IndexError" by simp
    with False 1(2) show ?thesis by (subst pop_loop.simps) simp
  qed
qed

lemma add_row_nonneg:
  "0 \<le> columns t \<Longrightarrow>
   add_row objects t =
     (Inr (), t\<lparr>table := table t @ [take (nat (columns t))
         (objects @ replicate (nat (columns t - int (length objects))) None)],
       rows := rows t + 1\<rparr>)"
  by (simp add: add_row_def pad_loop_eq pop_loop_eq del: pad_loop.simps pop_loop.simps)

lemma add_row_neg: "columns t < 0 \<Longrightarrow> add_row objects t = (Inl IndexError, t)"
  by (simp add: add_row_def pop_loop_neg del: pad_loop.simps pop_loop.simps)

lemma add_row_columns: "columns (snd (add_row objects t)) = columns t"
  by (cases "0 \<le> columns t") (simp_all add: add_row_nonneg add_row_neg)

lemma del_row_columns: "columns (snd (del_row index t)) = columns t"
  by (simp add: del_row_def split: option.splits)

lemma add_column_loop_eq: "add_column_loop p tb = map (\<lambda>row. row @ [p]) tb"
  by (induction tb) simp_all

text \<open>On rows of one length the loop of \<open>del_column\<close> fails at the first row or at none.\<close>

lemma del_column_loop_uniform:
  "\<forall>row \<in> set tb. length row = n \<Longrightarrow>
   del_column_loop index tb =
     (case py_index n index of
        None \<Rightarrow> (if tb = [] then (Inr (), []) else (Inl IndexError, tb))
      | Some k \<Rightarrow> (Inr (), map (del_at k) tb))"
  by (induction tb) (auto split: option.splits)

subsection \<open>The invariant\<close>

lemma inv_init: "table_inv (Table_init c)"
  by (simp add: table_inv_def Table_init_def)

lemma inv_add_row: "table_inv t \<Longrightarrow> table_inv (snd (add_row objects t))"
proof (cases "0 \<le> columns t")
  case True
  assume "table_inv t"
  with True show ?thesis by (auto simp: add_row_nonneg table_inv_def)
next
  case False
  assume "table_inv t"
  with False show ?thesis by (simp add: add_row_neg)
qed

lemma inv_del_row: "table_inv t \<Longrightarrow> table_inv (snd (del_row index t))"
proof (cases "py_index (length (table t)) index")
  case None
  assume "table_inv t"
  with None show ?thesis by (simp add: del_row_def)
next
  case (Some k)
  assume inv: "table_inv t"
  from Some have k: "k < length (table t)" by (rule py_index_bound)
  have "int (length (del_at k (table t))) = rows t - 1"
    using k inv by (simp add: length_del_at table_inv_def)
  moreover have "\<forall>row \<in> set (del_at k (table t)). int (length row) = columns t"
    using inv set_del_at[of k "table t"] by (auto simp: table_inv_def)
  ultimately show ?thesis using Some by (simp add: del_row_def table_inv_def)
qed

lemma inv_add_column: "table_inv t \<Longrightarrow> table_inv (snd (add_column p t))"
  by (auto simp: add_column_def add_column_loop_eq table_inv_def)

lemma inv_del_column: "table_inv t \<Longrightarrow> table_inv (snd (del_column index t))"
proof -
  assume inv: "table_inv t"
  show ?thesis
  proof (cases "table t = []")
    case True
    with inv show ?thesis by (simp add: del_column_def table_inv_def)
  next
    case False
    from inv have u: "\<forall>row \<in> set (table t). length row = nat (columns t)"
      by (auto simp: table_inv_def)
    show ?thesis
    proof (cases "py_index (nat (columns t)) index")
      case None
      with False inv show ?thesis
        by (simp add: del_column_def del_column_loop_uniform[OF u])
    next
      case (Some k)
      then have k: "k < nat (columns t)" by (rule py_index_bound)
      have "\<forall>row \<in> set (map (del_at k) (table t)). int (length row) = columns t - 1"
        using u k by (auto simp: length_del_at)
      with Some inv show ?thesis
        by (simp add: del_column_def del_column_loop_uniform[OF u] table_inv_def)
    qed
  qed
qed

lemma inv_set_column: "table_inv t \<Longrightarrow> table_inv (snd (set_column v r c t))"
proof -
  assume inv: "table_inv t"
  have "\<forall>row \<in> set ((table t)[i := (table t ! i)[j := v]]). int (length row) = columns t"
    if "i < length (table t)" for i j
  proof
    fix row assume "row \<in> set ((table t)[i := (table t ! i)[j := v]])"
    then have "row \<in> insert ((table t ! i)[j := v]) (set (table t))"
      using set_update_subset_insert by fastforce
    with inv that show "int (length row) = columns t" by (auto simp: table_inv_def)
  qed
  with inv show ?thesis
    by (auto simp: set_column_def table_inv_def split: option.splits dest: py_index_bound)
qed

lemma inv_step: "table_inv t \<Longrightarrow> table_inv (table_step x t)"
  by (cases x)
     (simp_all add: inv_add_row inv_del_row inv_add_column inv_del_column inv_set_column)

lemma inv_run: "table_inv t \<Longrightarrow> table_inv (table_run xs t)"
  by (induction xs arbitrary: t) (simp_all add: inv_step)

text \<open>
  C4. Let \<open>t\<close> be the table after any sequence of calls of \<open>add_row\<close>, \<open>del_row\<close>,
  \<open>add_column\<close>, \<open>del_column\<close> and \<open>set_column\<close> on a fresh table (calls that raise
  included). Every row of \<open>t\<close> is as long as \<open>columns\<close> says, and \<open>rows\<close> is the number of
  row entries. \<open>add_column\<close> appends the placeholder to every row and adds one to
  \<open>columns\<close>; a \<open>del_column\<close> that returns makes every row one shorter and takes one from
  \<open>columns\<close>, and one that raises leaves the table as it was. \<open>add_row\<close> and \<open>del_row\<close>
  leave \<open>columns\<close> unchanged.
\<close>

theorem table_invariants:
  assumes "t = table_run ops (Table_init c)"
  shows "(\<forall>row \<in> set (table t). int (length row) = columns t)
       \<and> rows t = int (length (table t))
       \<and> (\<exists>t'. add_column p t = (Inr (), t') \<and> columns t' = columns t + 1
              \<and> table t' = map (\<lambda>row. row @ [p]) (table t)
              \<and> (\<forall>row \<in> set (table t'). int (length row) = columns t'))
       \<and> (\<forall>t'. del_column i t = (Inr (), t') \<longrightarrow>
              columns t' = columns t - 1
              \<and> map length (table t') = map (\<lambda>row. length row - 1) (table t)
              \<and> (\<forall>row \<in> set (table t'). int (length row) = columns t'))
       \<and> (\<forall>e t'. del_column i t = (Inl e, t') \<longrightarrow> t' = t)
       \<and> columns (snd (add_row objects t)) = columns t
       \<and> columns (snd (del_row k t)) = columns t"
proof -
  have inv: "table_inv t" unfolding assms by (rule inv_run[OF inv_init])
  have 1: "\<forall>row \<in> set (table t). int (length row) = columns t"
    using inv by (simp add: table_inv_def)
  have 2: "rows t = int (length (table t))" using inv by (simp add: table_inv_def)
  have 3: "\<exists>t'. add_column p t = (Inr (), t') \<and> columns t' = columns t + 1
              \<and> table t' = map (\<lambda>row. row @ [p]) (table t)
              \<and> (\<forall>row \<in> set (table t'). int (length row) = columns t')"
    using inv_add_column[OF inv, of p]
    by (simp add: add_column_def add_column_loop_eq table_inv_def)
  have dinv: "table_inv (snd (del_column i t))" using inv by (rule inv_del_column)
  have u: "\<forall>row \<in> set (table t). length row = nat (columns t)" using 1 by auto
  have 4: "\<forall>t'. del_column i t = (Inr (), t') \<longrightarrow>
              columns t' = columns t - 1
              \<and> map length (table t') = map (\<lambda>row. length row - 1) (table t)
              \<and> (\<forall>row \<in> set (table t'). int (length row) = columns t')"
  proof (intro allI impI)
    fix t' assume h: "del_column i t = (Inr (), t')"
    with dinv have i': "table_inv t'" by simp
    from h have c: "columns t' = columns t - 1"
      by (auto simp: del_column_def split: prod.splits sum.splits)
    have m: "map length (table t') = map (\<lambda>row. length row - 1) (table t)"
    proof (cases "py_index (nat (columns t)) i")
      case None
      with h show ?thesis
        by (auto simp: del_column_def del_column_loop_uniform[OF u] split: if_splits)
    next
      case (Some j)
      then have "j < nat (columns t)" by (rule py_index_bound)
      with u have "\<forall>row \<in> set (table t). length (del_at j row) = length row - 1"
        by (simp add: length_del_at)
      with Some h show ?thesis
        by (auto simp: del_column_def del_column_loop_uniform[OF u])
    qed
    from c m i' show "columns t' = columns t - 1
              \<and> map length (table t') = map (\<lambda>row. length row - 1) (table t)
              \<and> (\<forall>row \<in> set (table t'). int (length row) = columns t')"
      by (simp add: table_inv_def)
  qed
  have 5: "\<forall>e t'. del_column i t = (Inl e, t') \<longrightarrow> t' = t"
    by (cases "py_index (nat (columns t)) i")
       (auto simp: del_column_def del_column_loop_uniform[OF u] split: if_splits)
  show ?thesis
    by (intro conjI) (rule 1 2 3 4 5 add_row_columns del_row_columns)+
qed

theorem table_invariants_witness:
  "table_run [Add_row [Some (1::nat)], Add_column None] (Table_init 1)
     = \<lparr>columns = 2, rows = 1, table = [[Some 1, None]]\<rparr>
   \<and> rows (table_run [Add_row [Some (1::nat)], Add_column None] (Table_init 1))
     = int (length (table (table_run [Add_row [Some (1::nat)], Add_column None] (Table_init 1))))
   \<and> del_column 0 (table_run [Add_row [Some (1::nat)], Add_column None] (Table_init 1))
     = (Inr (), \<lparr>columns = 1, rows = 1, table = [[None]]\<rparr>)
   \<and> columns \<lparr>columns = 1, rows = 1, table = [[None :: nat option]]\<rparr>
     = columns (table_run [Add_row [Some (1::nat)], Add_column None] (Table_init 1)) - 1
   \<and> columns (snd (add_row [Some 5, Some 6, Some 7]
        (table_run [Add_row [Some (1::nat)], Add_column None] (Table_init 1))))
     = columns (table_run [Add_row [Some (1::nat)], Add_column None] (Table_init 1))
   \<and> columns (snd (del_row 0
        (table_run [Add_row [Some (1::nat)], Add_column None] (Table_init 1))))
     = columns (table_run [Add_row [Some (1::nat)], Add_column None] (Table_init 1))"
proof -
  let ?t = "table_run [Add_row [Some (1::nat)], Add_column None] (Table_init 1)"
  let ?t' = "\<lparr>columns = 1, rows = 1, table = [[None :: nat option]]\<rparr>"
  have r: "?t = \<lparr>columns = 2, rows = 1, table = [[Some 1, None]]\<rparr>"
    by (simp add: add_row_nonneg add_column_def Table_init_def)
  have d: "del_column 0 ?t = (Inr (), ?t')"
    unfolding r by (simp add: del_column_def py_index_def del_at_def)
  note th = table_invariants[OF refl, of "[Add_row [Some (1::nat)], Add_column None]" 1 None 0
      "[Some 5, Some 6, Some 7]" 0]
  from th have 2: "rows ?t = int (length (table ?t))" by blast
  from th d have 4: "columns ?t' = columns ?t - 1" by blast
  from th have 6: "columns (snd (add_row [Some 5, Some 6, Some 7] ?t)) = columns ?t" by blast
  from th have 7: "columns (snd (del_row 0 ?t)) = columns ?t" by blast
  show ?thesis
    by (intro conjI) (rule r 2 d 4 6 7)+
qed

subsection \<open>Rows\<close>

text \<open>
  C5. On a table whose column count is not negative, \<open>add_row\<close> returns, and \<open>get_row\<close>
  on the new row (the last one, at the position the table's former length gives) returns
  a row of length exactly \<open>columns\<close>: the values given followed by the empty marker up
  to \<open>columns\<close> when they are fewer, the first \<open>columns\<close> of them when they are more.
\<close>

theorem add_row_get_row:
  assumes "0 \<le> columns t"
  shows "\<exists>t' row. add_row objects t = (Inr (), t')
           \<and> table t' = table t @ [row]
           \<and> get_row t' (int (length (table t))) = Inr row
           \<and> get_row t' (- 1) = Inr row
           \<and> int (length row) = columns t
           \<and> (int (length objects) \<le> columns t \<longrightarrow>
                row = objects @ replicate (nat (columns t) - length objects) None)
           \<and> (int (length objects) \<ge> columns t \<longrightarrow> row = take (nat (columns t)) objects)"
proof -
  let ?row = "take (nat (columns t))
                (objects @ replicate (nat (columns t - int (length objects))) None)"
  let ?t' = "t\<lparr>table := table t @ [?row], rows := rows t + 1\<rparr>"
  have 1: "add_row objects t = (Inr (), ?t')" using assms by (rule add_row_nonneg)
  have 2: "get_row ?t' (int (length (table t))) = Inr ?row"
    by (simp add: get_row_def py_index_nat)
  have 3: "get_row ?t' (- 1) = Inr ?row"
    by (simp add: get_row_def py_index_last)
  have 4: "int (length ?row) = columns t" using assms by auto
  have 5: "int (length objects) \<le> columns t \<longrightarrow>
             ?row = objects @ replicate (nat (columns t) - length objects) None"
    using assms by (auto simp: nat_diff_distrib')
  have 6: "int (length objects) \<ge> columns t \<longrightarrow> ?row = take (nat (columns t)) objects"
    using assms by auto
  from 1 2 3 4 5 6 show ?thesis by (intro exI[of _ ?t'] exI[of _ ?row]) simp
qed

theorem add_row_get_row_witness:
  "0 \<le> columns (Table_init 3 :: nat Table)
   \<and> get_row (snd (add_row [Some (1::nat)] (Table_init 3))) (- 1) = Inr [Some 1, None, None]
   \<and> get_row (snd (add_row [Some (1::nat), Some 2, Some 3, Some 4] (Table_init 3))) (- 1)
       = Inr [Some 1, Some 2, Some 3]"
proof -
  have h: "0 \<le> columns (Table_init 3 :: nat Table)" by (simp add: Table_init_def)
  have c: "columns (Table_init 3 :: nat Table) = 3" by (simp add: Table_init_def)
  from add_row_get_row[OF h, of "[Some 1]"]
  obtain t' row where "add_row [Some (1::nat)] (Table_init 3) = (Inr (), t')"
    and "get_row t' (- 1) = Inr row"
    and "int (length [Some (1::nat)]) \<le> columns (Table_init 3 :: nat Table) \<longrightarrow>
           row = [Some 1] @ replicate (nat (columns (Table_init 3 :: nat Table))
                                        - length [Some (1::nat)]) None"
    by blast
  then have 1: "get_row (snd (add_row [Some (1::nat)] (Table_init 3))) (- 1)
                  = Inr [Some 1, None, None]"
    by (simp add: c eval_nat_numeral)
  from add_row_get_row[OF h, of "[Some 1, Some 2, Some 3, Some 4]"]
  obtain t'' row' where "add_row [Some (1::nat), Some 2, Some 3, Some 4] (Table_init 3)
                           = (Inr (), t'')"
    and "get_row t'' (- 1) = Inr row'"
    and "int (length [Some (1::nat), Some 2, Some 3, Some 4])
           \<ge> columns (Table_init 3 :: nat Table) \<longrightarrow>
         row' = take (nat (columns (Table_init 3 :: nat Table)))
                  [Some 1, Some 2, Some 3, Some 4]"
    by blast
  then have 2: "get_row (snd (add_row [Some (1::nat), Some 2, Some 3, Some 4] (Table_init 3)))
                   (- 1) = Inr [Some 1, Some 2, Some 3]"
    by (simp add: c eval_nat_numeral)
  from h 1 2 show ?thesis by simp
qed

subsection \<open>Cells\<close>

text \<open>
  C9. Let \<open>r\<close> be a valid row index, denoting position \<open>i\<close>, and \<open>c\<close> a valid index into
  that row, denoting position \<open>j\<close>. Then \<open>set_column v r c\<close> returns, \<open>get_column r c\<close>
  on the table after it returns \<open>v\<close>, and \<open>get_column\<close> at every index pair that does not
  denote the cell \<open>(i, j)\<close> returns what it returned before; \<open>columns\<close>, \<open>rows\<close> and the
  lengths of the rows are unchanged.
\<close>

theorem set_column_get_column:
  assumes r: "py_index (length (table t)) r = Some i"
      and c: "py_index (length (table t ! i)) c = Some j"
  shows "\<exists>t'. set_column v r c t = (Inr (), t')
           \<and> get_column t' r c = Inr v
           \<and> (\<forall>r' c'. \<not> (py_index (length (table t)) r' = Some i
                           \<and> py_index (length (table t ! i)) c' = Some j)
                 \<longrightarrow> get_column t' r' c' = get_column t r' c')
           \<and> columns t' = columns t \<and> rows t' = rows t
           \<and> map length (table t') = map length (table t)"
proof -
  let ?t' = "t\<lparr>table := (table t)[i := (table t ! i)[j := v]]\<rparr>"
  from r have i: "i < length (table t)" by (rule py_index_bound)
  from c have j: "j < length (table t ! i)" by (rule py_index_bound)
  have 1: "set_column v r c t = (Inr (), ?t')" using r c by (simp add: set_column_def)
  have 2: "get_column ?t' r c = Inr v" using r c i j by (simp add: get_column_def)
  have 3: "get_column ?t' r' c' = get_column t r' c'"
    if "\<not> (py_index (length (table t)) r' = Some i
           \<and> py_index (length (table t ! i)) c' = Some j)"
    for r' c'
  proof (cases "py_index (length (table t)) r'")
    case None
    then show ?thesis by (simp add: get_column_def)
  next
    case (Some i')
    show ?thesis
    proof (cases "i' = i")
      case False
      with Some show ?thesis by (simp add: get_column_def split: option.splits)
    next
      case True
      with Some that have "py_index (length (table t ! i)) c' \<noteq> Some j" by simp
      with Some True i show ?thesis
        by (cases "py_index (length (table t ! i)) c'") (simp_all add: get_column_def)
    qed
  qed
  have 4: "map length (table ?t') = map length (table t)"
    using i by (simp add: list_eq_iff_nth_eq nth_list_update)
  from 1 2 3 4 show ?thesis by (intro exI[of _ ?t']) simp
qed

theorem set_column_get_column_witness:
  "py_index (length (table \<lparr>columns = 2, rows = 2,
        table = [[Some (1::nat), Some 2], [Some 3, Some 4]]\<rparr>)) 1 = Some 1
   \<and> py_index (length (table \<lparr>columns = 2, rows = 2,
        table = [[Some (1::nat), Some 2], [Some 3, Some 4]]\<rparr> ! 1)) (- 1) = Some 1
   \<and> get_column (snd (set_column (Some 9) 1 (- 1) \<lparr>columns = 2, rows = 2,
        table = [[Some (1::nat), Some 2], [Some 3, Some 4]]\<rparr>)) 1 (- 1) = Inr (Some 9)
   \<and> get_column (snd (set_column (Some 9) 1 (- 1) \<lparr>columns = 2, rows = 2,
        table = [[Some (1::nat), Some 2], [Some 3, Some 4]]\<rparr>)) 1 0 = Inr (Some 3)"
proof -
  let ?t = "\<lparr>columns = 2, rows = 2, table = [[Some (1::nat), Some 2], [Some 3, Some 4]]\<rparr>"
  have r: "py_index (length (table ?t)) 1 = Some 1" by (simp add: py_index_def)
  have c: "py_index (length (table ?t ! 1)) (- 1) = Some 1" by (simp add: py_index_def)
  have n: "\<not> (py_index (length (table ?t)) 1 = Some 1
             \<and> py_index (length (table ?t ! 1)) 0 = Some 1)"
    by (simp add: py_index_def)
  have g: "get_column ?t 1 0 = Inr (Some 3)" by (simp add: get_column_def py_index_def)
  from set_column_get_column[OF r c, of "Some 9"]
  obtain t' where "set_column (Some 9) 1 (- 1) ?t = (Inr (), t')"
    and "get_column t' 1 (- 1) = Inr (Some 9)"
    and "\<forall>r' c'. \<not> (py_index (length (table ?t)) r' = Some 1
                      \<and> py_index (length (table ?t ! 1)) c' = Some 1)
            \<longrightarrow> get_column t' r' c' = get_column ?t r' c'"
    by blast
  with n g have "get_column (snd (set_column (Some 9) 1 (- 1) ?t)) 1 (- 1) = Inr (Some 9)"
    and "get_column (snd (set_column (Some 9) 1 (- 1) ?t)) 1 0 = Inr (Some 3)"
    by simp_all
  with r c show ?thesis by simp
qed

subsection \<open>Columns of a table without rows\<close>

text \<open>
  C10. On a table that has no row, \<open>del_column i\<close> returns for every integer \<open>i\<close> (no
  row is visited, so nothing can raise) and takes one from \<open>columns\<close>; a sequence of
  such calls takes as many from \<open>columns\<close> as it has calls, below zero as well.
\<close>

theorem del_column_no_rows:
  assumes "table t = []"
  shows "del_column i t = (Inr (), t\<lparr>columns := columns t - 1\<rparr>)
       \<and> table_run (map Del_column js) t = t\<lparr>columns := columns t - int (length js)\<rparr>"
proof -
  have a: "del_column i t = (Inr (), t\<lparr>columns := columns t - 1\<rparr>)" if "table t = []"
    for i and t :: "'a Table"
    using that by (simp add: del_column_def)
  have "table_run (map Del_column js) t = t\<lparr>columns := columns t - int (length js)\<rparr>"
    if "table t = []"
    using that by (induction js arbitrary: t) (simp_all add: a)
  with assms a show ?thesis by simp
qed

theorem del_column_no_rows_witness:
  "table (Table_init 0 :: nat Table) = []
   \<and> del_column 5 (Table_init 0 :: nat Table) = (Inr (), \<lparr>columns = - 1, rows = 0, table = []\<rparr>)
   \<and> table_run [Del_column 0, Del_column (- 3)] (Table_init 1 :: nat Table)
       = \<lparr>columns = - 1, rows = 0, table = []\<rparr>"
proof -
  have h: "table (Table_init 0 :: nat Table) = []" by (simp add: Table_init_def)
  have h1: "table (Table_init 1 :: nat Table) = []" by (simp add: Table_init_def)
  from del_column_no_rows[OF h, of 5]
  have 1: "del_column 5 (Table_init 0 :: nat Table)
             = (Inr (), \<lparr>columns = - 1, rows = 0, table = []\<rparr>)"
    by (simp add: Table_init_def)
  from del_column_no_rows[OF h1, of 0 "[0, - 3]"]
  have 2: "table_run [Del_column 0, Del_column (- 3)] (Table_init 1 :: nat Table)
             = \<lparr>columns = - 1, rows = 0, table = []\<rparr>"
    by (simp add: Table_init_def del: table_run.simps)
  from h 1 2 show ?thesis by simp
qed

subsection \<open>Rendering\<close>

lemma get_table_loop_eq:
  "get_table_loop str tb acc = acc @ concat (map (row_line str) tb)"
  by (induction tb arbitrary: acc) simp_all

text \<open>
  C6. \<open>get_table\<close> is the concatenation, row after row, of the line
  \<open>| cell | ... | cell |\<close> ended by a newline (after the last row as well), where the
  empty marker is rendered as the empty text. For \<open>Table(2)\<close> after \<open>add_row(''a'', ''b'')\<close>
  and \<open>add_row(''x'')\<close> the second row is \<open>[''x'', None]\<close> and \<open>get_table\<close> returns the two
  lines \<open>| a | b |\<close> and \<open>| x |  |\<close>, each ended by a newline.
\<close>

theorem get_table_lines:
  "get_table str t =
     concat (map (\<lambda>row. ''| '' @ join '' | '' (map (cell_text str) row) @ '' |\<newline>'')
       (table t))
   \<and> cell_text str None = []
   \<and> get_row (snd (add_row [Some ''x''] (snd (add_row [Some ''a'', Some ''b''] (Table_init 2))))) 1
       = Inr [Some ''x'', None]
   \<and> get_table (\<lambda>s. s)
        (snd (add_row [Some ''x''] (snd (add_row [Some ''a'', Some ''b''] (Table_init 2)))))
       = ''| a | b |\<newline>| x |  |\<newline>''"
proof -
  have 1: "get_table str t =
     concat (map (\<lambda>row. ''| '' @ join '' | '' (map (cell_text str) row) @ '' |\<newline>'')
       (table t))"
  proof -
    have "row_line str
            = (\<lambda>row. ''| '' @ join '' | '' (map (cell_text str) row) @ '' |\<newline>'')"
      by (rule ext) (simp add: row_line_def)
    then show ?thesis by (simp add: get_table_def get_table_loop_eq)
  qed
  have 2: "cell_text str None = []" by (simp add: cell_text_def)
  have a: "snd (add_row [Some ''a'', Some ''b''] (Table_init 2))
             = \<lparr>columns = 2, rows = 1, table = [[Some ''a'', Some ''b'']]\<rparr>"
    by (simp add: add_row_def Table_init_def)
  have b: "snd (add_row [Some ''x'']
                  \<lparr>columns = 2, rows = 1, table = [[Some ''a'', Some ''b'']]\<rparr>)
             = \<lparr>columns = 2, rows = 2, table = [[Some ''a'', Some ''b''], [Some ''x'', None]]\<rparr>"
    by (simp add: add_row_def)
  have 3: "get_row (snd (add_row [Some ''x'']
                      (snd (add_row [Some ''a'', Some ''b''] (Table_init 2))))) 1
             = Inr [Some ''x'', None]"
    by (simp add: a b get_row_def py_index_def)
  have 4: "get_table (\<lambda>s. s)
        (snd (add_row [Some ''x''] (snd (add_row [Some ''a'', Some ''b''] (Table_init 2)))))
       = ''| a | b |\<newline>| x |  |\<newline>''"
    by (simp add: a b get_table_def row_line_def cell_text_def)
  from 1 2 3 4 show ?thesis by simp
qed

theorem get_table_lines_witness:
  "get_table (\<lambda>s. s) \<lparr>columns = 1, rows = 2, table = [[Some ''q''], [None]]\<rparr>
     = ''| q |\<newline>|  |\<newline>''"
  using get_table_lines[of "\<lambda>s. s" "\<lparr>columns = 1, rows = 2, table = [[Some ''q''], [None]]\<rparr>"]
  by (simp add: cell_text_def)

end
